theory Spec2Isabelle
  imports Complex_Main "HOL-Library.Word"
begin

section \<open>JavaScript values used by the two components\<close>

text \<open>
  A JavaScript string is a sequence of 16-bit code units. The topic is kept in that
  form, because \<open>String.prototype.trim\<close> decides on code units which Isabelle's 8-bit
  \<open>char\<close> cannot hold (U+3000, U+2003, ...). Every other string of the program (job
  ids, status words, colour names, messages) is only compared for equality, tested for
  emptiness or concatenated, and is an Isabelle \<open>string\<close>.

  JavaScript numbers are IEEE doubles; they are read here as reals, so the rounding of
  \<open>data.progress * 100\<close> and of \<open>Math.random() * 100\<close> is not part of the model.
\<close>

type_synonym js_string = "16 word list"

definition is_white_space :: "16 word \<Rightarrow> bool" where
  \<comment> \<open>ECMAScript WhiteSpace and LineTerminator: what \<open>trim\<close> strips.\<close>
  "is_white_space c \<longleftrightarrow>
     c = 0x9 \<or> c = 0xA \<or> c = 0xB \<or> c = 0xC \<or> c = 0xD \<or> c = 0x20 \<or> c = 0xA0 \<or>
     c = 0x1680 \<or> (0x2000 \<le> c \<and> c \<le> 0x200A) \<or> c = 0x2028 \<or> c = 0x2029 \<or>
     c = 0x202F \<or> c = 0x205F \<or> c = 0x3000 \<or> c = 0xFEFF"

definition trim :: "js_string \<Rightarrow> js_string" where
  "trim s = rev (dropWhile is_white_space (rev (dropWhile is_white_space s)))"

text \<open>
  \<open>colorMap[color]\<close> reads a property of an object literal. Such a read finds the
  literal's own keys first and then the members every object inherits from
  \<open>Object.prototype\<close>; only when both fail is the result \<open>undefined\<close>. An inherited
  member is a function (or, for \<open>__proto__\<close>, the prototype object itself): a truthy
  value that is not a string.
\<close>

datatype js_value = Str string | Inherited string

definition object_prototype_keys :: "string list" where
  "object_prototype_keys =
     [''constructor'', ''__defineGetter__'', ''__defineSetter__'', ''hasOwnProperty'',
      ''__lookupGetter__'', ''__lookupSetter__'', ''isPrototypeOf'',
      ''propertyIsEnumerable'', ''toString'', ''valueOf'', ''__proto__'',
      ''toLocaleString'']"

definition get_property :: "(string \<times> string) list \<Rightarrow> string \<Rightarrow> js_value option" where
  \<comment> \<open>\<open>obj[k]\<close> for an object literal \<open>obj\<close> with string values; \<open>None\<close> is \<open>undefined\<close>.\<close>
  "get_property obj k =
     (case map_of obj k of
        Some v \<Rightarrow> Some (Str v)
      | None \<Rightarrow> if k \<in> set object_prototype_keys then Some (Inherited k) else None)"

fun or_else :: "js_value option \<Rightarrow> string \<Rightarrow> js_value" where
  \<comment> \<open>\<open>v || d\<close> with a string literal \<open>d\<close> on the right: \<open>undefined\<close> and the empty
      string are falsy, every other value is truthy.\<close>
  "or_else None d = Str d"
| "or_else (Some (Str s)) d = (if s = [] then Str d else Str s)"
| "or_else (Some (Inherited k)) d = Inherited k"

section \<open>The page component \<open>Index\<close>\<close>

subsection \<open>Data\<close>

record JobStatus =
  job_id :: string
  status :: string
  progress :: real
  audio_url :: "string option"
  video_url :: "string option"
  error :: "string option"

text \<open>
  The \<open>useState\<close> variables of \<open>Index\<close>. The state variable \<open>progress\<close> is named
  \<open>progress_state\<close> here, the name \<open>progress\<close> being taken by the field of \<open>JobStatus\<close>.
\<close>

record index_state =
  topic :: js_string
  additionalDetails :: js_string
  waveformColor :: string
  generatingPodcast :: bool
  podcastGenerated :: bool
  isPlaying :: bool
  jobId :: "string option"
  jobStatus :: "JobStatus option"
  progress_state :: real
  audioUrl :: "string option"

definition initial_state :: index_state where
  "initial_state =
     \<lparr>topic = [], additionalDetails = [], waveformColor = ''blue'',
      generatingPodcast = False, podcastGenerated = False, isPlaying = False,
      jobId = None, jobStatus = None, progress_state = 0, audioUrl = None\<rparr>"

definition colorMap :: "(string \<times> string) list" where
  "colorMap =
     [(''blue'', ''#1E90FF''), (''purple'', ''#8A2BE2''), (''pink'', ''#FF69B4''),
      (''orange'', ''#FFA500''), (''green'', ''#00FF00''), (''red'', ''#FF0000'')]"

text \<open>
  What a handler does to the world outside the component state: requests, timers and
  notifications, in the order the code performs them. \<open>Fetch_get j\<close> is the status query
  for job \<open>j\<close>; \<open>Set_timeout j d\<close> is \<open>setTimeout(checkStatus, d)\<close> made by the
  \<open>checkStatus\<close> closure of job \<open>j\<close>.
\<close>

datatype effect =
    Fetch_post js_string js_value
  | Fetch_get string
  | Set_timeout string nat
  | Toast_error string
  | Toast_success string
  | Console_error string

text \<open>
  What comes back from \<open>fetch\<close>: the promise rejects (\<open>Network_error\<close>), or a response
  arrives with its \<open>ok\<close> flag and its body, \<open>None\<close> when \<open>response.json()\<close> rejects. A
  body that parses is taken to have the shape the code's types declare: a \<open>job_id\<close>
  string for the submission, a \<open>JobStatus\<close> for a status query.
\<close>

datatype 'a fetch_result = Network_error | Response bool "'a option"

fun try_body :: "'a fetch_result \<Rightarrow> 'a option" where
  \<comment> \<open>The \<open>data\<close> the \<open>try\<close> block reaches; \<open>None\<close> when control goes to \<open>catch\<close>.\<close>
  "try_body Network_error = None"
| "try_body (Response ok body) = (if \<not> ok then None else body)"

subsection \<open>Handlers\<close>

definition button_disabled :: "index_state \<Rightarrow> bool" where
  \<comment> \<open>\<open>disabled={generatingPodcast || !topic.trim()}\<close> of the submit button.\<close>
  "button_disabled s \<longleftrightarrow> generatingPodcast s \<or> trim (topic s) = []"

definition handleGeneratePodcast :: "index_state \<Rightarrow> index_state \<times> effect list" where
  \<comment> \<open>The handler up to its \<open>await fetch(...)\<close>.\<close>
  "handleGeneratePodcast s =
     (if trim (topic s) = [] then (s, [Toast_error ''Please enter a topic''])
      else
        (s\<lparr>generatingPodcast := True, podcastGenerated := False, jobId := None,
           jobStatus := None, progress_state := 0\<rparr>,
         [Fetch_post (topic s) (or_else (get_property colorMap (waveformColor s)) ''#00FF00'')]))"

definition handleGeneratePodcast_settled ::
  "string fetch_result \<Rightarrow> index_state \<Rightarrow> index_state \<times> effect list" where
  \<comment> \<open>The handler from the point where the \<open>fetch\<close> promise settles.\<close>
  "handleGeneratePodcast_settled r s =
     (case try_body r of
        Some j \<Rightarrow> (s\<lparr>jobId := Some j\<rparr>, [Toast_success ''Podcast generation started''])
      | None \<Rightarrow>
          (s\<lparr>generatingPodcast := False\<rparr>,
           [Console_error ''Error starting podcast generation:'',
            Toast_error ''Failed to start podcast generation'']))"

definition polling_effect :: "string option \<Rightarrow> effect list" where
  \<comment> \<open>The body of \<open>useEffect(..., [jobId])\<close>: \<open>if (!jobId) return; ... checkStatus()\<close>.\<close>
  "polling_effect j =
     (case j of None \<Rightarrow> [] | Some i \<Rightarrow> if i = [] then [] else [Fetch_get i])"

definition failed_message :: "JobStatus \<Rightarrow> string" where
  "failed_message d =
     ''Podcast generation failed: '' @
       (case error d of None \<Rightarrow> ''Unknown error''
        | Some e \<Rightarrow> if e = [] then ''Unknown error'' else e)"

definition checkStatus_settled ::
  "string \<Rightarrow> JobStatus fetch_result \<Rightarrow> index_state \<Rightarrow> index_state \<times> effect list" where
  \<comment> \<open>\<open>checkStatus\<close> of the closure for job \<open>j\<close>, from the point where its \<open>fetch\<close> settles.\<close>
  "checkStatus_settled j r s =
     (case try_body r of
        None \<Rightarrow>
          (s\<lparr>generatingPodcast := False\<rparr>,
           [Console_error ''Error checking job status:'',
            Toast_error ''Failed to check job status''])
      | Some d \<Rightarrow>
          (let s1 = s\<lparr>jobStatus := Some d, progress_state := progress d * 100\<rparr> in
           if status d = ''completed'' then
             (s1\<lparr>generatingPodcast := False, podcastGenerated := True,
                 audioUrl := audio_url d\<rparr>,
              [Toast_success ''Podcast generated successfully''])
           else if status d = ''failed'' then
             (s1\<lparr>generatingPodcast := False\<rparr>, [Toast_error (failed_message d)])
           else (s1, [Set_timeout j 2000])))"

definition togglePlayPause :: "index_state \<Rightarrow> index_state" where
  "togglePlayPause s = (if \<not> podcastGenerated s then s else s\<lparr>isPlaying := \<not> isPlaying s\<rparr>)"



subsection \<open>The component on the event loop\<close>

text \<open>
  A configuration is the component state together with what is pending on the event
  loop: submissions and status queries in flight, \<open>checkStatus\<close> timeouts not yet fired,
  and the log of every effect performed so far. Each continuation of the code is one
  atomic step, taken when its event arrives.
\<close>

record config =
  st :: index_state
  mounted :: bool
  posts :: nat
  gets :: "string list"
  timers :: "(string \<times> nat) list"
  log :: "effect list"

definition init :: config where
  "init = \<lparr>st = initial_state, mounted = True, posts = 0, gets = [], timers = [], log = []\<rparr>"

fun perform :: "effect \<Rightarrow> config \<Rightarrow> config" where
  "perform (Fetch_post t v) c = c\<lparr>posts := Suc (posts c), log := log c @ [Fetch_post t v]\<rparr>"
| "perform (Fetch_get j) c = c\<lparr>gets := gets c @ [j], log := log c @ [Fetch_get j]\<rparr>"
| "perform (Set_timeout j d) c = c\<lparr>timers := timers c @ [(j, d)], log := log c @ [Set_timeout j d]\<rparr>"
| "perform e c = c\<lparr>log := log c @ [e]\<rparr>"

definition emit :: "effect list \<Rightarrow> config \<Rightarrow> config" where
  "emit es c = fold perform es c"

definition polling_effect_cleanup :: "config \<Rightarrow> config" where
  \<comment> \<open>What React runs when the polling effect is torn down (its dependency \<open>jobId\<close>
      changed, or the component unmounts): the function the effect returned. The effect
      returns none, so nothing is cancelled.\<close>
  "polling_effect_cleanup c = c"

definition commit :: "index_state \<Rightarrow> config \<Rightarrow> config" where
  \<comment> \<open>The state setters of one continuation take effect: React drops them when the
      component is unmounted; otherwise it renders and, when \<open>jobId\<close> changed, tears the
      polling effect down and runs it again.\<close>
  "commit s' c =
     (if \<not> mounted c then c
      else if jobId s' = jobId (st c) then c\<lparr>st := s'\<rparr>
      else emit (polling_effect (jobId s')) (polling_effect_cleanup (c\<lparr>st := s'\<rparr>)))"

definition presets :: "string list" where
  \<comment> \<open>The \<open>SelectItem\<close> values of the colour select.\<close>
  "presets = [''blue'', ''purple'', ''pink'', ''orange'', ''green'', ''red'']"

text \<open>
  The events. The first five come from the user: typing into the two text fields, choosing
  a colour, pressing the submit button (which calls \<open>handleGeneratePodcast\<close>; a disabled
  button takes no click) and pressing the play button. \<open>Post_settled r\<close> is a submission in
  flight settling with \<open>r\<close>; \<open>Get_settled j r\<close> is a status query for job \<open>j\<close> in flight
  settling with \<open>r\<close>; \<open>Timer_fired j\<close> is a pending timeout of the chain for job \<open>j\<close>
  calling \<open>checkStatus\<close>. \<open>Unmount\<close> removes the component from the page. A step is \<open>None\<close>
  when its event cannot happen in the configuration.
\<close>

datatype event =
    Set_topic js_string
  | Set_details js_string
  | Select_color string
  | Click_generate
  | Click_play
  | Post_settled "string fetch_result"
  | Get_settled string "JobStatus fetch_result"
  | Timer_fired string
  | Unmount

fun step :: "event \<Rightarrow> config \<Rightarrow> config option" where
  "step (Set_topic t) c =
     (if mounted c then Some (commit ((st c)\<lparr>topic := t\<rparr>) c) else None)"
| "step (Set_details t) c =
     (if mounted c then Some (commit ((st c)\<lparr>additionalDetails := t\<rparr>) c) else None)"
| "step (Select_color n) c =
     (if mounted c \<and> n \<in> set presets
      then Some (commit ((st c)\<lparr>waveformColor := n\<rparr>) c) else None)"
| "step Click_generate c =
     (if mounted c \<and> \<not> button_disabled (st c)
      then (case handleGeneratePodcast (st c) of (s', es) \<Rightarrow> Some (commit s' (emit es c)))
      else None)"
| "step Click_play c =
     (if mounted c \<and> podcastGenerated (st c)
      then Some (commit (togglePlayPause (st c)) c) else None)"
| "step (Post_settled r) c =
     (if 0 < posts c
      then (case handleGeneratePodcast_settled r (st c) of
              (s', es) \<Rightarrow> Some (commit s' (emit es (c\<lparr>posts := posts c - 1\<rparr>))))
      else None)"
| "step (Get_settled j r) c =
     (if j \<in> set (gets c)
      then (case checkStatus_settled j r (st c) of
              (s', es) \<Rightarrow> Some (commit s' (emit es (c\<lparr>gets := remove1 j (gets c)\<rparr>))))
      else None)"
| "step (Timer_fired j) c =
     (if (j, 2000) \<in> set (timers c)
      then Some (emit [Fetch_get j] (c\<lparr>timers := remove1 (j, 2000) (timers c)\<rparr>))
      else None)"
| "step Unmount c =
     (if mounted c then Some (polling_effect_cleanup (c\<lparr>mounted := False\<rparr>)) else None)"

fun run :: "event list \<Rightarrow> config \<Rightarrow> config option" where
  "run [] c = Some c"
| "run (e # es) c = (case step e c of None \<Rightarrow> None | Some c' \<Rightarrow> run es c')"

section \<open>The component \<open>WaveformVisualizer\<close>\<close>

text \<open>
  A bar is one child \<open>div\<close> of the container. What the code writes is the inline
  \<open>style.height\<close> of a bar, a percentage; a bar never written has no inline height and
  takes the 20\<open>%\<close> of its class \<open>h-1/5\<close>. React rewrites only the style properties named
  in the JSX (\<open>animationDelay\<close>), so a render leaves an inline height as it is.

  \<open>Math.random\<close> is an input of a tick: \<open>rnd i\<close> is the number drawn for bar \<open>i\<close>, one call
  per bar. The container reference is set once the component is mounted, which is when
  effects run, so the test \<open>!containerRef.current\<close> is false throughout.
\<close>

type_synonym bar = "real option"

definition bar_height :: "bar \<Rightarrow> real" where
  \<comment> \<open>The height a bar is drawn with, in percent of the container.\<close>
  "bar_height b = (case b of None \<Rightarrow> 20 | Some h \<Rightarrow> h)"

definition barCount :: nat where
  "barCount = 64"

record interval =
  period :: nat
  closure_playing :: bool

record visualizer =
  playing :: bool
  bars :: "bar list"
  intervalId :: "interval option"

definition getColorClass_colorMap :: "(string \<times> string) list" where
  "getColorClass_colorMap =
     [(''blue'', ''bg-waveform-blue''), (''purple'', ''bg-waveform-purple''),
      (''pink'', ''bg-waveform-pink''), (''orange'', ''bg-waveform-orange''),
      (''green'', ''bg-waveform-green''), (''red'', ''bg-waveform-red'')]"

definition getColorClass :: "string \<Rightarrow> js_value" where
  "getColorClass color = or_else (get_property getColorClass_colorMap color) ''bg-waveform-blue''"

definition updateBars :: "bool \<Rightarrow> (nat \<Rightarrow> real) \<Rightarrow> bar list \<Rightarrow> bar list" where
  \<comment> \<open>\<open>updateBars\<close> of the closure that saw \<open>playing = p\<close>.\<close>
  "updateBars p rnd bs = map (\<lambda>i. if p then Some (rnd i * 100) else Some 20) [0..<length bs]"

definition animation_effect :: "visualizer \<Rightarrow> visualizer" where
  \<comment> \<open>The body of \<open>useEffect(..., [playing])\<close>.\<close>
  "animation_effect v =
     (if \<not> playing v then v
      else v\<lparr>intervalId := Some \<lparr>period = 100, closure_playing = playing v\<rparr>\<rparr>)"

definition animation_cleanup :: "visualizer \<Rightarrow> visualizer" where
  \<comment> \<open>\<open>clearInterval(intervalId)\<close>, the function the effect returns once it has set an
      interval; a run that returned early left none to clear.\<close>
  "animation_cleanup v = v\<lparr>intervalId := None\<rparr>"

definition mount_visualizer :: "bool \<Rightarrow> visualizer" where
  \<comment> \<open>First render with \<open>barCount\<close> bars, then the effect.\<close>
  "mount_visualizer p =
     animation_effect \<lparr>playing = p, bars = replicate barCount None, intervalId = None\<rparr>"

definition setPlaying :: "bool \<Rightarrow> visualizer \<Rightarrow> visualizer" where
  \<comment> \<open>The parent renders the component with a new \<open>playing\<close> prop: when the value
      changed, React tears the effect down and runs it again.\<close>
  "setPlaying p v =
     (if p = playing v then v else animation_effect ((animation_cleanup v)\<lparr>playing := p\<rparr>))"

definition tick :: "(nat \<Rightarrow> real) \<Rightarrow> visualizer \<Rightarrow> visualizer option" where
  \<comment> \<open>The interval fires; \<open>None\<close> when there is no interval to fire.\<close>
  "tick rnd v =
     (case intervalId v of
        None \<Rightarrow> None
      | Some i \<Rightarrow> Some (v\<lparr>bars := updateBars (closure_playing i) rnd (bars v)\<rparr>))"

datatype vis_event = Set_playing bool | Tick "nat \<Rightarrow> real"

fun vis_step :: "vis_event \<Rightarrow> visualizer \<Rightarrow> visualizer option" where
  "vis_step (Set_playing p) v = Some (setPlaying p v)"
| "vis_step (Tick rnd) v = tick rnd v"

fun vis_run :: "vis_event list \<Rightarrow> visualizer \<Rightarrow> visualizer option" where
  "vis_run [] v = Some v"
| "vis_run (e # es) v = (case vis_step e v of None \<Rightarrow> None | Some v' \<Rightarrow> vis_run es v')"

section \<open>Sample data\<close>

definition sample_topic :: js_string where
  \<comment> \<open>The code units of \<open>Space Exploration\<close>.\<close>
  "sample_topic =
     [0x53, 0x70, 0x61, 0x63, 0x65, 0x20, 0x45, 0x78, 0x70, 0x6C, 0x6F, 0x72, 0x61, 0x74,
      0x69, 0x6F, 0x6E]"

definition sample_processing :: JobStatus where
  "sample_processing =
     \<lparr>job_id = ''abc123'', status = ''processing'', progress = 0.4, audio_url = None,
      video_url = None, error = None\<rparr>"

definition sample_completed :: JobStatus where
  "sample_completed =
     \<lparr>job_id = ''abc123'', status = ''completed'', progress = 1,
      audio_url = Some ''/files/a.mp3'', video_url = Some ''/files/a.mp4'', error = None\<rparr>"

definition sample_failed :: JobStatus where
  "sample_failed =
     \<lparr>job_id = ''abc123'', status = ''failed'', progress = 0.4, audio_url = None,
      video_url = None, error = Some ''tts engine unavailable''\<rparr>"

definition submitted :: config where
  \<comment> \<open>The submission is in flight.\<close>
  "submitted =
     \<lparr>st = initial_state\<lparr>topic := sample_topic, generatingPodcast := True\<rparr>,
      mounted = True, posts = 1, gets = [], timers = [],
      log = [Fetch_post sample_topic (Str ''#1E90FF'')]\<rparr>"

definition polling :: config where
  \<comment> \<open>The first status query of job \<open>abc123\<close> is in flight.\<close>
  "polling =
     \<lparr>st = initial_state\<lparr>topic := sample_topic, generatingPodcast := True,
                           jobId := Some ''abc123''\<rparr>,
      mounted = True, posts = 0, gets = [''abc123''], timers = [],
      log = [Fetch_post sample_topic (Str ''#1E90FF''),
             Toast_success ''Podcast generation started'', Fetch_get ''abc123'']\<rparr>"

definition waiting :: config where
  \<comment> \<open>Job \<open>abc123\<close> was reported as processing; the next query waits for its timeout.\<close>
  "waiting =
     \<lparr>st = initial_state\<lparr>topic := sample_topic, generatingPodcast := True,
                           jobId := Some ''abc123'', jobStatus := Some sample_processing,
                           progress_state := 40\<rparr>,
      mounted = True, posts = 0, gets = [], timers = [(''abc123'', 2000)],
      log = [Fetch_post sample_topic (Str ''#1E90FF''),
             Toast_success ''Podcast generation started'', Fetch_get ''abc123'',
             Set_timeout ''abc123'' 2000]\<rparr>"

section \<open>Notions used in the statements\<close>

fun queries :: "effect list \<Rightarrow> string list" where
  \<comment> \<open>The status queries among some effects.\<close>
  "queries [] = []"
| "queries (Fetch_get j # es) = j # queries es"
| "queries (e # es) = queries es"

fun timeouts :: "effect list \<Rightarrow> (string \<times> nat) list" where
  \<comment> \<open>The timeouts set among some effects.\<close>
  "timeouts [] = []"
| "timeouts (Set_timeout j d # es) = (j, d) # timeouts es"
| "timeouts (e # es) = timeouts es"

fun submissions :: "effect list \<Rightarrow> nat" where
  \<comment> \<open>The number of submission requests among some effects.\<close>
  "submissions [] = 0"
| "submissions (Fetch_post t v # es) = Suc (submissions es)"
| "submissions (e # es) = submissions es"

definition rerun :: "index_state \<Rightarrow> config \<Rightarrow> effect list" where
  \<comment> \<open>What the polling effect performs when a continuation commits state \<open>s'\<close>.\<close>
  "rerun s' c = (if mounted c \<and> jobId s' \<noteq> jobId (st c) then polling_effect (jobId s') else [])"

definition ui_event :: "event \<Rightarrow> bool" where
  \<comment> \<open>The events that touch neither the network nor a timer.\<close>
  "ui_event e \<longleftrightarrow>
     (case e of Set_topic t \<Rightarrow> True | Set_details t \<Rightarrow> True | Select_color n \<Rightarrow> True
      | Click_play \<Rightarrow> True | Unmount \<Rightarrow> True | _ \<Rightarrow> False)"

definition quiet :: "string \<Rightarrow> config \<Rightarrow> bool" where
  \<comment> \<open>Nothing of a polling chain for job \<open>j\<close> is pending.\<close>
  "quiet j c \<longleftrightarrow> j \<notin> set (gets c) \<and> j \<notin> fst ` set (timers c)"

definition pending :: "config \<Rightarrow> nat" where
  "pending c = posts c + length (gets c) + length (timers c)"

definition single_flow :: "config \<Rightarrow> bool" where
  \<comment> \<open>The invariant the submit button's \<open>disabled\<close> attribute maintains: at most one
      request or timer is pending; while one is, the component shows a run in progress;
      while the submission itself is in flight, no job is known yet.\<close>
  "single_flow c \<longleftrightarrow>
     pending c \<le> 1 \<and>
     (if mounted c \<and> 0 < pending c
      then generatingPodcast (st c) \<and> \<not> podcastGenerated (st c) else True) \<and>
     (if mounted c \<and> 0 < posts c
      then jobId (st c) = None \<and> jobStatus (st c) = None \<and> progress_state (st c) = 0
      else True)"

definition polls_no_more :: "string \<Rightarrow> config \<Rightarrow> bool" where
  \<comment> \<open>From \<open>c\<close> on, no status query for job \<open>j\<close> is issued, whatever events follow, as long
      as no later submission is answered with the same job id \<open>j\<close> (which would start a new
      chain).\<close>
  "polls_no_more j c \<longleftrightarrow>
     (\<forall>evs c'. Post_settled (Response True (Some j)) \<notin> set evs \<and> run evs c = Some c' \<longrightarrow>
        (\<exists>new. log c' = log c @ new \<and> Fetch_get j \<notin> set new))"

definition polls_only_by_timer :: "string \<Rightarrow> config \<Rightarrow> bool" where
  \<comment> \<open>From \<open>c\<close> on, no status query for job \<open>j\<close> is issued unless a timeout of the chain
      fires (or a later submission is answered with the same job id).\<close>
  "polls_only_by_timer j c \<longleftrightarrow>
     (\<forall>evs c'. Timer_fired j \<notin> set evs \<and> Post_settled (Response True (Some j)) \<notin> set evs \<and>
          run evs c = Some c' \<longrightarrow>
        (\<exists>new. log c' = log c @ new \<and> Fetch_get j \<notin> set new))"

definition pending_view :: "config \<Rightarrow> nat \<times> string list \<times> (string \<times> nat) list \<times> effect list" where
  \<comment> \<open>What of a configuration lies outside the component: the requests in flight, the
      timeouts set and the effects performed.\<close>
  "pending_view c = (posts c, gets c, timers c, log c)"

definition chain_event :: "event \<Rightarrow> bool" where
  \<comment> \<open>The events that continue a polling chain.\<close>
  "chain_event e \<longleftrightarrow> (case e of Get_settled j r \<Rightarrow> True | Timer_fired j \<Rightarrow> True | _ \<Rightarrow> False)"




definition vis_inv :: "visualizer \<Rightarrow> bool" where
  \<comment> \<open>There are \<open>barCount\<close> bars, and an interval exists exactly while \<open>playing\<close> is true: it
      has period 100 and its closure saw \<open>playing = true\<close>.\<close>
  "vis_inv v \<longleftrightarrow>
     length (bars v) = barCount \<and>
     intervalId v = (if playing v then Some \<lparr>period = 100, closure_playing = True\<rparr> else None)"

fun playing_prop :: "bool \<Rightarrow> vis_event list \<Rightarrow> bool" where
  \<comment> \<open>The value of the \<open>playing\<close> prop the parent passed last: the one given at the mount, or
      the one of the latest \<open>Set_playing\<close>.\<close>
  "playing_prop p [] = p"
| "playing_prop p (Set_playing q # es) = playing_prop q es"
| "playing_prop p (Tick rnd # es) = playing_prop p es"

section \<open>Basic facts about the event loop\<close>

lemma emit_Nil: "emit [] c = c"
  by (simp add: emit_def)

lemma emit_Cons: "emit (e # es) c = emit es (perform e c)"
  by (simp add: emit_def)

lemma log_perform: "log (perform e c) = log c @ [e]"
  by (cases e) simp_all

lemma st_perform: "st (perform e c) = st c"
  by (cases e) simp_all

lemma mounted_perform: "mounted (perform e c) = mounted c"
  by (cases e) simp_all

lemma log_emit: "log (emit es c) = log c @ es"
  by (induction es arbitrary: c) (simp_all add: emit_Nil emit_Cons log_perform)

lemma st_emit: "st (emit es c) = st c"
  by (induction es arbitrary: c) (simp_all add: emit_Nil emit_Cons st_perform)

lemma mounted_emit: "mounted (emit es c) = mounted c"
  by (induction es arbitrary: c) (simp_all add: emit_Nil emit_Cons mounted_perform)

lemma gets_emit: "gets (emit es c) = gets c @ queries es"
proof (induction es arbitrary: c)
  case Nil
  show ?case by (simp add: emit_Nil)
next
  case (Cons e es)
  show ?case by (cases e) (simp_all add: emit_Cons Cons.IH)
qed

lemma timers_emit: "timers (emit es c) = timers c @ timeouts es"
proof (induction es arbitrary: c)
  case Nil
  show ?case by (simp add: emit_Nil)
next
  case (Cons e es)
  show ?case by (cases e) (simp_all add: emit_Cons Cons.IH)
qed

lemma posts_emit: "posts (emit es c) = posts c + submissions es"
proof (induction es arbitrary: c)
  case Nil
  show ?case by (simp add: emit_Nil)
next
  case (Cons e es)
  show ?case by (cases e) (simp_all add: emit_Cons Cons.IH)
qed

lemmas emit_fields = log_emit st_emit mounted_emit gets_emit timers_emit posts_emit

lemma polling_effect_cases:
  "polling_effect i = [] \<or> (\<exists>j. i = Some j \<and> j \<noteq> [] \<and> polling_effect i = [Fetch_get j])"
  by (simp add: polling_effect_def split: option.splits)

lemma log_commit:
  "log (commit s' c) =
     log c @ (if mounted c \<and> jobId s' \<noteq> jobId (st c) then polling_effect (jobId s') else [])"
  by (simp add: commit_def polling_effect_cleanup_def emit_fields)

lemma gets_commit:
  "gets (commit s' c) =
     gets c @ (if mounted c \<and> jobId s' \<noteq> jobId (st c) then queries (polling_effect (jobId s')) else [])"
  by (simp add: commit_def polling_effect_cleanup_def emit_fields)

lemma timers_commit: "timers (commit s' c) = timers c"
  using polling_effect_cases [of "jobId s'"]
  by (auto simp add: commit_def polling_effect_cleanup_def emit_fields)

lemma posts_commit: "posts (commit s' c) = posts c"
  using polling_effect_cases [of "jobId s'"]
  by (auto simp add: commit_def polling_effect_cleanup_def emit_fields)

lemma mounted_commit: "mounted (commit s' c) = mounted c"
  by (simp add: commit_def polling_effect_cleanup_def emit_fields)

lemma st_commit: "st (commit s' c) = (if mounted c then s' else st c)"
  by (simp add: commit_def polling_effect_cleanup_def emit_fields)

lemmas commit_fields = log_commit gets_commit timers_commit posts_commit mounted_commit st_commit

lemma try_body_None_iff:
  "try_body r = None \<longleftrightarrow> r = Network_error \<or> (\<exists>b. r = Response False b) \<or> r = Response True None"
  by (cases r) auto

lemma try_body_Some_iff: "try_body r = Some x \<longleftrightarrow> r = Response True (Some x)"
  by (cases r) auto

lemma jobId_checkStatus_settled: "jobId (fst (checkStatus_settled j r s)) = jobId s"
  by (simp add: checkStatus_settled_def Let_def split: option.splits)

lemma effects_checkStatus_settled:
  "snd (checkStatus_settled j r s) =
     (case try_body r of
        None \<Rightarrow> [Console_error ''Error checking job status:'', Toast_error ''Failed to check job status'']
      | Some d \<Rightarrow>
          if status d = ''completed'' then [Toast_success ''Podcast generated successfully'']
          else if status d = ''failed'' then [Toast_error (failed_message d)]
          else [Set_timeout j 2000])"
  by (simp add: checkStatus_settled_def Let_def split: option.splits)

lemma queries_checkStatus_settled: "queries (snd (checkStatus_settled j r s)) = []"
  by (simp add: effects_checkStatus_settled split: option.splits)

lemma submissions_checkStatus_settled: "submissions (snd (checkStatus_settled j r s)) = 0"
  by (simp add: effects_checkStatus_settled split: option.splits)

lemma step_Get_settled:
  "step (Get_settled j r) c =
     (if j \<in> set (gets c)
      then Some (commit (fst (checkStatus_settled j r (st c)))
                   (emit (snd (checkStatus_settled j r (st c))) (c\<lparr>gets := remove1 j (gets c)\<rparr>)))
      else None)"
  by (simp add: case_prod_beta)

lemma view_Get_settled:
  assumes "step (Get_settled j r) c = Some c'"
  shows "log c' = log c @ snd (checkStatus_settled j r (st c))"
    and "gets c' = remove1 j (gets c)"
    and "timers c' = timers c @ timeouts (snd (checkStatus_settled j r (st c)))"
    and "posts c' = posts c"
    and "mounted c' = mounted c"
    and "st c' = (if mounted c then fst (checkStatus_settled j r (st c)) else st c)"
  using assms
  by (auto simp del: step.simps simp add: step_Get_settled commit_fields emit_fields
        jobId_checkStatus_settled queries_checkStatus_settled submissions_checkStatus_settled
        split: if_splits)

lemma step_Timer_fired:
  "step (Timer_fired j) c =
     (if (j, 2000) \<in> set (timers c)
      then Some (c\<lparr>timers := remove1 (j, 2000) (timers c), gets := gets c @ [j],
                   log := log c @ [Fetch_get j]\<rparr>)
      else None)"
  by (simp add: emit_def)

lemma effects_handleGeneratePodcast_settled:
  "snd (handleGeneratePodcast_settled r s) =
     (case try_body r of
        Some j \<Rightarrow> [Toast_success ''Podcast generation started'']
      | None \<Rightarrow> [Console_error ''Error starting podcast generation:'',
                 Toast_error ''Failed to start podcast generation''])"
  by (simp add: handleGeneratePodcast_settled_def split: option.splits)

lemma jobId_handleGeneratePodcast_settled:
  "jobId (fst (handleGeneratePodcast_settled r s)) =
     (case try_body r of Some j \<Rightarrow> Some j | None \<Rightarrow> jobId s)"
  by (simp add: handleGeneratePodcast_settled_def split: option.splits)

lemma step_Post_settled:
  "step (Post_settled r) c =
     (if 0 < posts c
      then Some (commit (fst (handleGeneratePodcast_settled r (st c)))
                   (emit (snd (handleGeneratePodcast_settled r (st c))) (c\<lparr>posts := posts c - 1\<rparr>)))
      else None)"
  by (simp add: case_prod_beta)

lemma step_Click_generate:
  "step Click_generate c =
     (if mounted c \<and> \<not> button_disabled (st c)
      then Some (commit (fst (handleGeneratePodcast (st c)))
                   (emit (snd (handleGeneratePodcast (st c))) c))
      else None)"
  by (simp add: case_prod_beta)

lemma handleGeneratePodcast_enabled:
  assumes "\<not> button_disabled s"
  shows "fst (handleGeneratePodcast s) =
           s\<lparr>generatingPodcast := True, podcastGenerated := False, jobId := None,
             jobStatus := None, progress_state := 0\<rparr>"
    and "snd (handleGeneratePodcast s) =
           [Fetch_post (topic s) (or_else (get_property colorMap (waveformColor s)) ''#00FF00'')]"
  using assms by (simp_all add: handleGeneratePodcast_def button_disabled_def)

text \<open>A step logs; it never rewrites the log.\<close>

lemma step_log_grows:
  assumes "step e c = Some c'"
  shows "\<exists>new. log c' = log c @ new"
proof (cases e)
  case (Get_settled j r)
  with assms show ?thesis using view_Get_settled(1) by blast
next
  case (Timer_fired j)
  with assms show ?thesis by (auto simp del: step.simps simp add: step_Timer_fired split: if_splits)
next
  case (Post_settled r)
  with assms show ?thesis
    by (auto simp del: step.simps simp add: step_Post_settled commit_fields emit_fields split: if_splits)
next
  case Click_generate
  with assms show ?thesis
    by (auto simp del: step.simps simp add: step_Click_generate commit_fields emit_fields split: if_splits)
qed (use assms in \<open>auto simp add: commit_fields polling_effect_cleanup_def togglePlayPause_def split: if_splits\<close>)

text \<open>Which steps issue a status query for job \<open>j\<close>.\<close>

lemma step_query_source:
  assumes "step e c = Some c'" and "log c' = log c @ new" and "Fetch_get j \<in> set new"
  shows "e = Timer_fired j \<or> e = Post_settled (Response True (Some j))"
proof (cases e)
  case (Get_settled i r)
  with assms(1) have "log c' = log c @ snd (checkStatus_settled i r (st c))"
    using view_Get_settled(1) by blast
  with assms(2,3) show ?thesis
    by (auto simp add: effects_checkStatus_settled split: option.splits if_splits)
next
  case (Timer_fired i)
  with assms show ?thesis
    by (auto simp del: step.simps simp add: step_Timer_fired split: if_splits)
next
  case (Post_settled r)
  with assms show ?thesis
    using polling_effect_cases [of "jobId (fst (handleGeneratePodcast_settled r (st c)))"]
    by (auto simp del: step.simps simp add: step_Post_settled commit_fields emit_fields
          effects_handleGeneratePodcast_settled jobId_handleGeneratePodcast_settled
          try_body_Some_iff split: if_splits option.splits)
next
  case Click_generate
  with assms show ?thesis
    by (auto simp del: step.simps simp add: step_Click_generate commit_fields emit_fields
          handleGeneratePodcast_enabled polling_effect_def split: if_splits)
qed (use assms in \<open>auto simp add: commit_fields polling_effect_cleanup_def togglePlayPause_def split: if_splits\<close>)

lemma quiet_Get_settled:
  assumes "quiet j c" and "step (Get_settled i r) c = Some c'"
  shows "quiet j c'"
proof -
  from assms(2) have g: "gets c' = remove1 i (gets c)"
    and t: "timers c' = timers c @ timeouts (snd (checkStatus_settled i r (st c)))"
    using view_Get_settled(2,3) by blast+
  from assms(2) have i: "i \<in> set (gets c)"
    by (simp del: step.simps add: step_Get_settled split: if_splits)
  from i assms(1) have ij: "i \<noteq> j" by (auto simp add: quiet_def)
  have "set (timeouts (snd (checkStatus_settled i r (st c)))) \<subseteq> {(i, 2000)}"
    by (simp add: effects_checkStatus_settled split: option.splits)
  with ij t have "j \<notin> fst ` set (timers c') \<longleftrightarrow> j \<notin> fst ` set (timers c)"
    by auto
  moreover from g have "set (gets c') \<subseteq> set (gets c)"
    by (simp add: set_remove1_subset)
  ultimately show ?thesis using assms(1) by (auto simp add: quiet_def)
qed

lemma quiet_Timer_fired:
  assumes "quiet j c" and "step (Timer_fired i) c = Some c'"
  shows "quiet j c'"
proof -
  from assms(2) have i: "(i, 2000) \<in> set (timers c)"
    and g: "gets c' = gets c @ [i]" and t: "timers c' = remove1 (i, 2000) (timers c)"
    by (auto simp del: step.simps simp add: step_Timer_fired split: if_splits)
  from i assms(1) have ij: "i \<noteq> j" by (force simp add: quiet_def)
  from t have "set (timers c') \<subseteq> set (timers c)" by (simp add: set_remove1_subset)
  with g ij assms(1) show ?thesis by (auto simp add: quiet_def)
qed

lemma rerun_cases:
  "rerun s' c = [] \<or> (\<exists>j. jobId s' = Some j \<and> j \<noteq> [] \<and> rerun s' c = [Fetch_get j])"
  using polling_effect_cases [of "jobId s'"] by (auto simp add: rerun_def)

lemma view_Post_settled:
  assumes "step (Post_settled r) c = Some c'"
  shows "log c' = log c @ snd (handleGeneratePodcast_settled r (st c))
                  @ rerun (fst (handleGeneratePodcast_settled r (st c))) c"
    and "gets c' = gets c @ queries (rerun (fst (handleGeneratePodcast_settled r (st c))) c)"
    and "timers c' = timers c"
    and "posts c' = posts c - 1"
    and "mounted c' = mounted c"
    and "st c' = (if mounted c then fst (handleGeneratePodcast_settled r (st c)) else st c)"
    and "0 < posts c"
proof -
  let ?s = "fst (handleGeneratePodcast_settled r (st c))"
  let ?es = "snd (handleGeneratePodcast_settled r (st c))"
  from assms have p: "0 < posts c" and c': "c' = commit ?s (emit ?es (c\<lparr>posts := posts c - 1\<rparr>))"
    by (simp_all del: step.simps add: step_Post_settled split: if_splits)
  have q: "queries ?es = []" and t: "timeouts ?es = []" and n: "submissions ?es = 0"
    by (simp_all add: effects_handleGeneratePodcast_settled split: option.splits)
  show "log c' = log c @ ?es @ rerun ?s c"
    by (simp add: c' commit_fields emit_fields rerun_def)
  show "gets c' = gets c @ queries (rerun ?s c)"
    by (simp add: c' commit_fields emit_fields rerun_def q)
  show "timers c' = timers c" by (simp add: c' commit_fields emit_fields t)
  show "posts c' = posts c - 1" by (simp add: c' commit_fields emit_fields n)
  show "mounted c' = mounted c" by (simp add: c' commit_fields emit_fields)
  show "st c' = (if mounted c then ?s else st c)" by (simp add: c' commit_fields emit_fields)
  show "0 < posts c" by (rule p)
qed

lemma view_Click_generate:
  assumes "step Click_generate c = Some c'"
  shows "log c' = log c @ [Fetch_post (topic (st c))
                             (or_else (get_property colorMap (waveformColor (st c))) ''#00FF00'')]"
    and "gets c' = gets c"
    and "timers c' = timers c"
    and "posts c' = Suc (posts c)"
    and "mounted c'"
    and "st c' = (st c)\<lparr>generatingPodcast := True, podcastGenerated := False, jobId := None,
                       jobStatus := None, progress_state := 0\<rparr>"
    and "mounted c" and "\<not> button_disabled (st c)"
proof -
  let ?s = "fst (handleGeneratePodcast (st c))"
  let ?es = "snd (handleGeneratePodcast (st c))"
  from assms have m: "mounted c" and b: "\<not> button_disabled (st c)"
    and c': "c' = commit ?s (emit ?es c)"
    by (simp_all del: step.simps add: step_Click_generate split: if_splits)
  note h = handleGeneratePodcast_enabled [OF b]
  show "log c' = log c @ [Fetch_post (topic (st c))
                             (or_else (get_property colorMap (waveformColor (st c))) ''#00FF00'')]"
    by (simp add: c' commit_fields emit_fields h polling_effect_def)
  show "gets c' = gets c" by (simp add: c' commit_fields emit_fields h polling_effect_def)
  show "timers c' = timers c" by (simp add: c' commit_fields emit_fields h)
  show "posts c' = Suc (posts c)" by (simp add: c' commit_fields emit_fields h)
  show "mounted c'" by (simp add: c' commit_fields emit_fields m)
  show "st c' = (st c)\<lparr>generatingPodcast := True, podcastGenerated := False, jobId := None,
                       jobStatus := None, progress_state := 0\<rparr>"
    by (simp add: c' commit_fields emit_fields h m)
  show "mounted c" by (rule m)
  show "\<not> button_disabled (st c)" by (rule b)
qed

text \<open>The steps of the user interface other than the submission leave the event loop alone.\<close>

lemma view_ui_event:
  assumes "step e c = Some c'" and "ui_event e"
  shows "log c' = log c" and "gets c' = gets c" and "timers c' = timers c"
    and "posts c' = posts c" and "mounted c"
    and "generatingPodcast (st c') = generatingPodcast (st c)"
    and "podcastGenerated (st c') = podcastGenerated (st c)"
    and "audioUrl (st c') = audioUrl (st c)"
    and "jobStatus (st c') = jobStatus (st c)"
    and "jobId (st c') = jobId (st c)"
    and "progress_state (st c') = progress_state (st c)"
  using assms
  by (cases e; simp add: ui_event_def commit_def polling_effect_cleanup_def togglePlayPause_def
        split: if_splits; fastforce)+

lemma quiet_Post_settled:
  assumes "quiet j c" and "step (Post_settled r) c = Some c'" and "r \<noteq> Response True (Some j)"
  shows "quiet j c'"
proof -
  let ?s = "fst (handleGeneratePodcast_settled r (st c))"
  note v = view_Post_settled [OF assms(2)]
  have "j \<notin> set (queries (rerun ?s c))"
  proof
    assume a: "j \<in> set (queries (rerun ?s c))"
    with rerun_cases [of ?s c] have "jobId ?s = Some j" and "rerun ?s c \<noteq> []" by auto
    then have "try_body r = Some j"
      by (auto simp add: jobId_handleGeneratePodcast_settled rerun_def split: option.splits)
    with assms(3) show False by (simp add: try_body_Some_iff)
  qed
  with v(2,3) assms(1) show ?thesis by (simp add: quiet_def)
qed

lemma quiet_step:
  assumes "quiet j c" and "step e c = Some c'" and "e \<noteq> Post_settled (Response True (Some j))"
  shows "quiet j c'"
proof (cases "ui_event e")
  case True
  from view_ui_event(2,3) [OF assms(2) True] assms(1) show ?thesis by (simp add: quiet_def)
next
  case False
  then consider (g) i r where "e = Get_settled i r" | (t) i where "e = Timer_fired i"
    | (p) r where "e = Post_settled r" | (c) "e = Click_generate"
    by (cases e) (simp_all add: ui_event_def)
  then show ?thesis
  proof cases
    case g with assms show ?thesis using quiet_Get_settled by blast
  next
    case t with assms show ?thesis using quiet_Timer_fired by blast
  next
    case p with assms show ?thesis using quiet_Post_settled by blast
  next
    case c
    with assms(2) have "gets c' = gets c" and "timers c' = timers c"
      using view_Click_generate(2,3) by blast+
    with assms(1) show ?thesis by (simp add: quiet_def)
  qed
qed

lemma quiet_run:
  assumes "quiet j c" and "run evs c = Some c'"
    and "Post_settled (Response True (Some j)) \<notin> set evs"
  shows "quiet j c' \<and> (\<exists>new. log c' = log c @ new \<and> Fetch_get j \<notin> set new)"
  using assms
proof (induction evs arbitrary: c)
  case Nil
  then show ?case by simp
next
  case (Cons e evs)
  from Cons.prems(2) obtain c1 where s: "step e c = Some c1" and r: "run evs c1 = Some c'"
    by (auto split: option.splits)
  from Cons.prems(3) have ne: "e \<noteq> Post_settled (Response True (Some j))"
    and nes: "Post_settled (Response True (Some j)) \<notin> set evs" by auto
  from quiet_step [OF Cons.prems(1) s ne] have q1: "quiet j c1" .
  from step_log_grows [OF s] obtain n1 where n1: "log c1 = log c @ n1" by blast
  have "Fetch_get j \<notin> set n1"
  proof
    assume "Fetch_get j \<in> set n1"
    from step_query_source [OF s n1 this] ne have "e = Timer_fired j" by simp
    with s have "(j, 2000) \<in> set (timers c)"
      by (simp del: step.simps add: step_Timer_fired split: if_splits)
    with Cons.prems(1) show False by (force simp add: quiet_def)
  qed
  moreover from Cons.IH [OF q1 r nes] obtain n2
    where "quiet j c'" and "log c' = log c1 @ n2" and "Fetch_get j \<notin> set n2" by blast
  ultimately show ?case using n1 by auto
qed


lemma status_fields_checkStatus_settled:
  "generatingPodcast (fst (checkStatus_settled j r s)) =
     (case try_body r of None \<Rightarrow> False
      | Some d \<Rightarrow> if status d = ''completed'' \<or> status d = ''failed'' then False
                  else generatingPodcast s)"
  "podcastGenerated (fst (checkStatus_settled j r s)) =
     (case try_body r of None \<Rightarrow> podcastGenerated s
      | Some d \<Rightarrow> if status d = ''completed'' then True else podcastGenerated s)"
  "audioUrl (fst (checkStatus_settled j r s)) =
     (case try_body r of None \<Rightarrow> audioUrl s
      | Some d \<Rightarrow> if status d = ''completed'' then audio_url d else audioUrl s)"
  "jobStatus (fst (checkStatus_settled j r s)) =
     (case try_body r of None \<Rightarrow> jobStatus s | Some d \<Rightarrow> Some d)"
  "progress_state (fst (checkStatus_settled j r s)) =
     (case try_body r of None \<Rightarrow> progress_state s | Some d \<Rightarrow> progress d * 100)"
  "topic (fst (checkStatus_settled j r s)) = topic s"
  by (simp_all add: checkStatus_settled_def Let_def split: option.splits)



lemma length_remove1_Suc: "x \<in> set xs \<Longrightarrow> length xs = Suc (length (remove1 x xs))"
  by (induction xs) auto




lemma single_flow_only_chain:
  assumes "single_flow c" and "j \<in> set (gets c)"
  shows "j \<notin> set (remove1 j (gets c))" and "j \<notin> fst ` set (timers c)"
proof -
  from assms(2) have "length (gets c) = Suc (length (remove1 j (gets c)))"
    by (rule length_remove1_Suc)
  with assms(1) have "remove1 j (gets c) = []" and "timers c = []"
    by (auto simp add: single_flow_def pending_def)
  then show "j \<notin> set (remove1 j (gets c))" and "j \<notin> fst ` set (timers c)"
    by simp_all
qed

lemma run_append:
  "run (es @ fs) c = (case run es c of None \<Rightarrow> None | Some c' \<Rightarrow> run fs c')"
  by (induction es arbitrary: c) (simp_all split: option.splits)

lemma run_query_source:
  assumes "run evs c = Some c'" and "Timer_fired j \<notin> set evs"
    and "Post_settled (Response True (Some j)) \<notin> set evs"
  shows "\<exists>new. log c' = log c @ new \<and> Fetch_get j \<notin> set new"
  using assms
proof (induction evs arbitrary: c)
  case Nil
  then show ?case by simp
next
  case (Cons e evs)
  from Cons.prems(1) obtain c1 where s: "step e c = Some c1" and r: "run evs c1 = Some c'"
    by (auto split: option.splits)
  from step_log_grows [OF s] obtain n1 where n1: "log c1 = log c @ n1" by blast
  from step_query_source [OF s n1] Cons.prems(2,3) have "Fetch_get j \<notin> set n1" by auto
  moreover from Cons.IH [OF r] Cons.prems(2,3) obtain n2
    where "log c' = log c1 @ n2" and "Fetch_get j \<notin> set n2" by auto
  ultimately show ?case using n1 by auto
qed

lemmas handler_defs =
  button_disabled_def handleGeneratePodcast_def handleGeneratePodcast_settled_def
  checkStatus_settled_def polling_effect_def polling_effect_cleanup_def commit_def
  emit_def togglePlayPause_def failed_message_def get_property_def colorMap_def
  object_prototype_keys_def presets_def trim_def is_white_space_def

lemmas sample_defs =
  init_def initial_state_def sample_topic_def sample_processing_def sample_completed_def
  sample_failed_def submitted_def polling_def waiting_def

lemma submitted_reachable: "run [Set_topic sample_topic, Click_generate] init = Some submitted"
  by (simp add: handler_defs sample_defs)

lemma polling_reachable:
  "run [Set_topic sample_topic, Click_generate, Post_settled (Response True (Some ''abc123''))] init
     = Some polling"
  by (simp add: handler_defs sample_defs)

lemma waiting_reachable:
  "run [Set_topic sample_topic, Click_generate, Post_settled (Response True (Some ''abc123'')),
        Get_settled ''abc123'' (Response True (Some sample_processing))] init
     = Some waiting"
  by (simp add: handler_defs sample_defs)

lemma quiet_polls_no_more: "quiet j c \<Longrightarrow> polls_no_more j c"
  unfolding polls_no_more_def using quiet_run by blast

lemma polls_only_by_timer_holds: "polls_only_by_timer j c"
  unfolding polls_only_by_timer_def using run_query_source by blast

lemma Get_settled_enabled:
  assumes "j \<in> set (gets c)"
  obtains c' where "step (Get_settled j r) c = Some c'"
  using assms by (simp del: step.simps add: step_Get_settled)


text \<open>The events of a chain do the same to the event loop whatever the component state.\<close>

lemma effects_checkStatus_settled_state:
  "snd (checkStatus_settled j r s) = snd (checkStatus_settled j r s')"
  by (simp add: effects_checkStatus_settled)

lemma chain_step_view:
  assumes "chain_event e" and "pending_view c1 = pending_view c2"
  shows "map_option pending_view (step e c1) = map_option pending_view (step e c2)"
proof -
  from assms(1) consider (g) j r where "e = Get_settled j r" | (t) j where "e = Timer_fired j"
    by (cases e) (simp_all add: chain_event_def)
  then show ?thesis
  proof cases
    case g
    show ?thesis
    proof (cases "j \<in> set (gets c1)")
      case True
      with assms(2) have "j \<in> set (gets c2)" by (simp add: pending_view_def)
      with True obtain d1 d2 where s1: "step (Get_settled j r) c1 = Some d1"
        and s2: "step (Get_settled j r) c2 = Some d2"
        using Get_settled_enabled by metis
      note v1 = view_Get_settled [OF s1] and v2 = view_Get_settled [OF s2]
      from assms(2) v1(1-4) v2(1-4) effects_checkStatus_settled_state [of j r "st c1" "st c2"]
      have "pending_view d1 = pending_view d2" by (simp add: pending_view_def)
      with s1 s2 g show ?thesis by simp
    next
      case False
      with assms(2) have "j \<notin> set (gets c2)" by (simp add: pending_view_def)
      with False g show ?thesis by (simp del: step.simps add: step_Get_settled)
    qed
  next
    case t
    with assms(2) show ?thesis
      by (simp del: step.simps add: step_Timer_fired pending_view_def)
  qed
qed

lemma chain_run_view:
  assumes "list_all chain_event evs" and "pending_view c1 = pending_view c2"
  shows "map_option pending_view (run evs c1) = map_option pending_view (run evs c2)"
  using assms
proof (induction evs arbitrary: c1 c2)
  case Nil
  then show ?case by simp
next
  case (Cons e evs)
  from Cons.prems have e: "chain_event e" and es: "list_all chain_event evs" by simp_all
  note s = chain_step_view [OF e Cons.prems(2)]
  show ?case
  proof (cases "step e c1")
    case None
    with s have "step e c2 = None" by simp
    with None show ?thesis by simp
  next
    case (Some d1)
    with s obtain d2 where d2: "step e c2 = Some d2" and "pending_view d1 = pending_view d2"
      by (cases "step e c2") auto
    with Cons.IH [OF es, of d1 d2] Some show ?thesis by simp
  qed
qed

text \<open>A topic of white space trims to the empty string.\<close>

lemma trim_blank:
  assumes "list_all is_white_space t"
  shows "trim t = []"
proof -
  from assms have d: "dropWhile is_white_space t = []"
    by (simp add: dropWhile_eq_Nil_conv list_all_iff)
  show ?thesis unfolding trim_def d by simp
qed

text \<open>
  The colour of the page is always one of the six the select offers, so on this page
  neither fallback is ever taken.
\<close>

lemma waveformColor_step:
  assumes "step e c = Some c'" and "waveformColor (st c) \<in> set presets"
  shows "waveformColor (st c') \<in> set presets"
proof (cases e)
  case (Get_settled j r)
  with assms view_Get_settled(6) [of j r c c'] show ?thesis
    by (simp add: checkStatus_settled_def Let_def split: option.splits if_splits)
next
  case (Post_settled r)
  with assms view_Post_settled(6) [of r c c'] show ?thesis
    by (simp add: handleGeneratePodcast_settled_def split: option.splits if_splits)
next
  case Click_generate
  with assms view_Click_generate(6) [of c c'] show ?thesis by simp
next
  case (Timer_fired j)
  with assms show ?thesis by (auto simp del: step.simps simp add: step_Timer_fired split: if_splits)
qed (use assms in \<open>auto simp add: commit_fields polling_effect_cleanup_def togglePlayPause_def split: if_splits\<close>)

lemma waveformColor_reachable:
  assumes "run evs init = Some c"
  shows "waveformColor (st c) \<in> set presets"
proof -
  have "waveformColor (st c0) \<in> set presets \<Longrightarrow> run evs c0 = Some c \<Longrightarrow>
        waveformColor (st c) \<in> set presets" for c0
    by (induction evs arbitrary: c0) (auto split: option.splits dest: waveformColor_step)
  moreover have "waveformColor (st init) \<in> set presets"
    by (simp add: init_def initial_state_def presets_def)
  ultimately show ?thesis using assms by blast
qed






section \<open>Basic facts about the visualizer\<close>

lemma length_updateBars: "length (updateBars p rnd bs) = length bs"
  by (simp add: updateBars_def)

lemma vis_inv_mount: "vis_inv (mount_visualizer p)"
  by (simp add: vis_inv_def mount_visualizer_def animation_effect_def)

lemma bars_setPlaying: "bars (setPlaying p v) = bars v"
  by (simp add: setPlaying_def animation_effect_def animation_cleanup_def)

lemma vis_inv_setPlaying: "vis_inv v \<Longrightarrow> vis_inv (setPlaying p v)"
  by (auto simp add: vis_inv_def setPlaying_def animation_effect_def animation_cleanup_def)

lemma vis_inv_tick: "vis_inv v \<Longrightarrow> tick rnd v = Some v' \<Longrightarrow> vis_inv v'"
  by (auto simp add: vis_inv_def tick_def length_updateBars split: option.splits if_splits)

lemma vis_inv_step: "vis_inv v \<Longrightarrow> vis_step e v = Some v' \<Longrightarrow> vis_inv v'"
  by (cases e) (auto simp add: vis_inv_setPlaying vis_inv_tick)

lemma vis_inv_run: "vis_inv v \<Longrightarrow> vis_run es v = Some v' \<Longrightarrow> vis_inv v'"
  by (induction es arbitrary: v) (auto split: option.splits dest: vis_inv_step)

lemma vis_inv_reachable: "vis_run es (mount_visualizer p) = Some v \<Longrightarrow> vis_inv v"
  using vis_inv_run [OF vis_inv_mount] .

lemma playing_mount: "playing (mount_visualizer p) = p"
  by (simp add: mount_visualizer_def animation_effect_def)

lemma playing_setPlaying: "playing (setPlaying q v) = q"
  by (simp add: setPlaying_def animation_effect_def animation_cleanup_def)

lemma playing_tick: "tick rnd v = Some v' \<Longrightarrow> playing v' = playing v"
  by (auto simp add: tick_def split: option.splits)

lemma playing_run:
  "vis_run es v = Some v' \<Longrightarrow> playing v' = playing_prop (playing v) es"
proof (induction es arbitrary: v)
  case Nil
  then show ?case by simp
next
  case (Cons e es)
  show ?case
  proof (cases e)
    case (Set_playing q)
    with Cons.prems have "vis_run es (setPlaying q v) = Some v'" by simp
    from Cons.IH [OF this] Set_playing show ?thesis by (simp add: playing_setPlaying)
  next
    case (Tick rnd)
    with Cons.prems obtain v1 where t: "tick rnd v = Some v1" and r: "vis_run es v1 = Some v'"
      by (auto split: option.splits)
    from Cons.IH [OF r] playing_tick [OF t] Tick show ?thesis by simp
  qed
qed

section \<open>The polling chain\<close>

text \<open>
  Claim C3. Take a polling chain for job \<open>j\<close> whose status query is in flight, the only
  pending task for \<open>j\<close>, and let the query be answered with a snapshot \<open>d\<close>. If the status of
  \<open>d\<close> is \<open>completed\<close> or \<open>failed\<close>, the chain notifies the user, sets no timeout, and no
  status query for \<open>j\<close> is issued ever after. For every other status the chain sets exactly
  one timeout of 2000 milliseconds (the two seconds the specification counts as two time
  units) and issues no query itself; no query for \<open>j\<close> is issued until that timeout fires,
  and its firing issues exactly one query for \<open>j\<close> and leaves no timeout of the chain
  behind. Every configuration reachable from the initial one meets the premises
  (\<open>single_flow_only_chain\<close>).
\<close>

theorem snapshot_stops_or_schedules_one_query:
  assumes "j \<in> set (gets c)" and "j \<notin> set (remove1 j (gets c))" and "j \<notin> fst ` set (timers c)"
  shows "\<exists>c'. step (Get_settled j (Response True (Some d))) c = Some c' \<and>
           gets c' = remove1 j (gets c) \<and>
           (if status d = ''completed'' \<or> status d = ''failed''
            then log c' = log c @ [if status d = ''completed''
                                   then Toast_success ''Podcast generated successfully''
                                   else Toast_error (failed_message d)] \<and>
                 timers c' = timers c \<and> polls_no_more j c'
            else log c' = log c @ [Set_timeout j 2000] \<and>
                 timers c' = timers c @ [(j, 2000)] \<and> polls_only_by_timer j c' \<and>
                 (\<exists>c''. step (Timer_fired j) c' = Some c'' \<and>
                        log c'' = log c' @ [Fetch_get j] \<and>
                        gets c'' = remove1 j (gets c) @ [j] \<and> timers c'' = timers c))"
proof -
  let ?r = "Response True (Some d) :: JobStatus fetch_result"
  from assms(1) obtain c' where s: "step (Get_settled j ?r) c = Some c'"
    by (rule Get_settled_enabled)
  note v = view_Get_settled [OF s]
  show ?thesis
  proof (cases "status d = ''completed'' \<or> status d = ''failed''")
    case True
    with v(3) have t: "timers c' = timers c"
      by (auto simp add: effects_checkStatus_settled)
    with v(2) assms(2,3) have "quiet j c'" by (simp add: quiet_def)
    then have "polls_no_more j c'" by (rule quiet_polls_no_more)
    with s v(1,2) t True show ?thesis
      by (auto simp add: effects_checkStatus_settled)
  next
    case False
    with v(1,3) have l: "log c' = log c @ [Set_timeout j 2000]"
      and t: "timers c' = timers c @ [(j, 2000)]"
      by (simp_all add: effects_checkStatus_settled)
    from assms(3) have "(j, 2000) \<notin> set (timers c)" by force
    then have r: "remove1 (j, 2000) (timers c @ [(j, 2000)]) = timers c"
      by (simp add: remove1_append)
    have "\<exists>c''. step (Timer_fired j) c' = Some c'' \<and> log c'' = log c' @ [Fetch_get j] \<and>
            gets c'' = remove1 j (gets c) @ [j] \<and> timers c'' = timers c"
      by (simp del: step.simps add: step_Timer_fired t r v(2))
    with s v(2) l t False polls_only_by_timer_holds [of j c'] show ?thesis by auto
  qed
qed

theorem snapshot_stops_or_schedules_one_query_witness:
  "((\<exists>c'. step (Get_settled ''abc123'' (Response True (Some sample_completed))) polling = Some c' \<and>
          gets c' = [] \<and>
          log c' = log polling @ [Toast_success ''Podcast generated successfully''] \<and>
          timers c' = [] \<and> polls_no_more ''abc123'' c') \<and>
    (\<exists>c'. step (Get_settled ''abc123'' (Response True (Some sample_failed))) polling = Some c' \<and>
          gets c' = [] \<and>
          log c' = log polling @ [Toast_error ''Podcast generation failed: tts engine unavailable''] \<and>
          timers c' = [] \<and> polls_no_more ''abc123'' c') \<and>
    (\<exists>c'. step (Get_settled ''abc123'' (Response True (Some sample_processing))) polling = Some c' \<and>
          gets c' = [] \<and>
          log c' = log polling @ [Set_timeout ''abc123'' 2000] \<and>
          timers c' = [(''abc123'', 2000)] \<and> polls_only_by_timer ''abc123'' c' \<and>
          (\<exists>c''. step (Timer_fired ''abc123'') c' = Some c'' \<and>
                 log c'' = log c' @ [Fetch_get ''abc123''] \<and>
                 gets c'' = [''abc123''] \<and> timers c'' = []))) \<and>
   (\<exists>c' c''. step (Get_settled ''abc123'' (Response True (Some sample_completed))) polling = Some c' \<and>
          run [Click_generate, Post_settled (Response True (Some ''xyz789'')),
               Get_settled ''xyz789'' (Response True (Some sample_processing))] c' = Some c'' \<and>
          (\<exists>new. log c'' = log c' @ new \<and> Fetch_get ''abc123'' \<notin> set new))"
proof -
  have h: "''abc123'' \<in> set (gets polling)"
    "''abc123'' \<notin> set (remove1 ''abc123'' (gets polling))"
    "''abc123'' \<notin> fst ` set (timers polling)"
    by (simp_all add: polling_def)
  have g: "gets polling = [''abc123'']" "timers polling = []" by (simp_all add: polling_def)
  have d: "status sample_completed = ''completed''" "status sample_failed = ''failed''"
    "status sample_processing = ''processing''"
    "failed_message sample_failed = ''Podcast generation failed: tts engine unavailable''"
    by (simp_all add: sample_completed_def sample_failed_def sample_processing_def
          failed_message_def)
  note completed = snapshot_stops_or_schedules_one_query [OF h, of sample_completed]
  from completed
    snapshot_stops_or_schedules_one_query [OF h, of sample_failed]
    snapshot_stops_or_schedules_one_query [OF h, of sample_processing]
  have outcomes:
    "(\<exists>c'. step (Get_settled ''abc123'' (Response True (Some sample_completed))) polling = Some c' \<and>
          gets c' = [] \<and>
          log c' = log polling @ [Toast_success ''Podcast generated successfully''] \<and>
          timers c' = [] \<and> polls_no_more ''abc123'' c') \<and>
     (\<exists>c'. step (Get_settled ''abc123'' (Response True (Some sample_failed))) polling = Some c' \<and>
          gets c' = [] \<and>
          log c' = log polling @ [Toast_error ''Podcast generation failed: tts engine unavailable''] \<and>
          timers c' = [] \<and> polls_no_more ''abc123'' c') \<and>
     (\<exists>c'. step (Get_settled ''abc123'' (Response True (Some sample_processing))) polling = Some c' \<and>
          gets c' = [] \<and>
          log c' = log polling @ [Set_timeout ''abc123'' 2000] \<and>
          timers c' = [(''abc123'', 2000)] \<and> polls_only_by_timer ''abc123'' c' \<and>
          (\<exists>c''. step (Timer_fired ''abc123'') c' = Some c'' \<and>
                 log c'' = log c' @ [Fetch_get ''abc123''] \<and>
                 gets c'' = [''abc123''] \<and> timers c'' = []))"
    by (simp del: step.simps add: g d)
  let ?evs = "[Click_generate, Post_settled (Response True (Some ''xyz789'')),
               Get_settled ''xyz789'' (Response True (Some sample_processing))]"
  from completed obtain c'
    where s: "step (Get_settled ''abc123'' (Response True (Some sample_completed))) polling = Some c'"
      and p: "polls_no_more ''abc123'' c'"
    by (auto simp add: d)
  from s have "\<exists>c''. run ?evs c' = Some c''"
    by (auto simp add: handler_defs sample_defs)
  then obtain c'' where r: "run ?evs c' = Some c''" ..
  have "Post_settled (Response True (Some ''abc123'')) \<notin> set ?evs" by simp
  with p r have "\<exists>new. log c'' = log c' @ new \<and> Fetch_get ''abc123'' \<notin> set new"
    unfolding polls_no_more_def by blast
  with s r have later:
    "\<exists>c' c''. step (Get_settled ''abc123'' (Response True (Some sample_completed))) polling = Some c' \<and>
          run ?evs c' = Some c'' \<and>
          (\<exists>new. log c'' = log c' @ new \<and> Fetch_get ''abc123'' \<notin> set new)"
    by blast
  from outcomes later show ?thesis ..
qed

text \<open>
  Claim C4. When the status query of a chain fails, by a rejected \<open>fetch\<close>, by a response
  that is not \<open>ok\<close> or by a body that does not parse, the failure is reported once, by one
  error notification (and one console line); the chain sets no timeout and issues no query,
  and no status query for \<open>j\<close> is issued ever after: there is no retry.
\<close>

theorem query_failure_ends_chain:
  assumes "j \<in> set (gets c)" and "j \<notin> set (remove1 j (gets c))" and "j \<notin> fst ` set (timers c)"
    and "r = Network_error \<or> r = Response False b \<or> r = Response True None"
  shows "\<exists>c'. step (Get_settled j r) c = Some c' \<and>
           log c' = log c @ [Console_error ''Error checking job status:'',
                             Toast_error ''Failed to check job status''] \<and>
           gets c' = remove1 j (gets c) \<and> timers c' = timers c \<and> posts c' = posts c \<and>
           polls_no_more j c'"
proof -
  from assms(4) have n: "try_body r = None" by auto
  from assms(1) obtain c' where s: "step (Get_settled j r) c = Some c'"
    by (rule Get_settled_enabled)
  note v = view_Get_settled [OF s]
  from v(3) n have t: "timers c' = timers c" by (simp add: effects_checkStatus_settled)
  with v(2) assms(2,3) have "quiet j c'" by (simp add: quiet_def)
  then have "polls_no_more j c'" by (rule quiet_polls_no_more)
  with s v(1,2,4) t n show ?thesis by (simp add: effects_checkStatus_settled)
qed

theorem query_failure_ends_chain_witness:
  "((\<exists>c'. step (Get_settled ''abc123'' Network_error) polling = Some c' \<and>
          log c' = log polling @ [Console_error ''Error checking job status:'',
                                  Toast_error ''Failed to check job status''] \<and>
          gets c' = [] \<and> timers c' = [] \<and> posts c' = 0 \<and> polls_no_more ''abc123'' c') \<and>
    (\<exists>c'. step (Get_settled ''abc123'' (Response False None)) polling = Some c' \<and>
          log c' = log polling @ [Console_error ''Error checking job status:'',
                                  Toast_error ''Failed to check job status''] \<and>
          gets c' = [] \<and> timers c' = [] \<and> posts c' = 0 \<and> polls_no_more ''abc123'' c')) \<and>
   (\<exists>c' c''. step (Get_settled ''abc123'' Network_error) polling = Some c' \<and>
          run [Click_generate, Post_settled (Response True (Some ''xyz789'')),
               Get_settled ''xyz789'' (Response True (Some sample_processing))] c' = Some c'' \<and>
          (\<exists>new. log c'' = log c' @ new \<and> Fetch_get ''abc123'' \<notin> set new))"
proof -
  have h: "''abc123'' \<in> set (gets polling)"
    "''abc123'' \<notin> set (remove1 ''abc123'' (gets polling))"
    "''abc123'' \<notin> fst ` set (timers polling)"
    by (simp_all add: polling_def)
  have g: "gets polling = [''abc123'']" "timers polling = []" "posts polling = 0"
    by (simp_all add: polling_def)
  have a: "(Network_error :: JobStatus fetch_result) = Network_error \<or>
           (Network_error :: JobStatus fetch_result) = Response False None \<or>
           (Network_error :: JobStatus fetch_result) = Response True None" by simp
  have b: "(Response False None :: JobStatus fetch_result) = Network_error \<or>
           (Response False None :: JobStatus fetch_result) = Response False None \<or>
           (Response False None :: JobStatus fetch_result) = Response True None" by simp
  note rejected = query_failure_ends_chain [OF h a]
  from rejected query_failure_ends_chain [OF h b]
  have outcomes:
    "(\<exists>c'. step (Get_settled ''abc123'' Network_error) polling = Some c' \<and>
          log c' = log polling @ [Console_error ''Error checking job status:'',
                                  Toast_error ''Failed to check job status''] \<and>
          gets c' = [] \<and> timers c' = [] \<and> posts c' = 0 \<and> polls_no_more ''abc123'' c') \<and>
     (\<exists>c'. step (Get_settled ''abc123'' (Response False None)) polling = Some c' \<and>
          log c' = log polling @ [Console_error ''Error checking job status:'',
                                  Toast_error ''Failed to check job status''] \<and>
          gets c' = [] \<and> timers c' = [] \<and> posts c' = 0 \<and> polls_no_more ''abc123'' c')"
    by (simp del: step.simps add: g)
  let ?evs = "[Click_generate, Post_settled (Response True (Some ''xyz789'')),
               Get_settled ''xyz789'' (Response True (Some sample_processing))]"
  from rejected obtain c'
    where s: "step (Get_settled ''abc123'' Network_error) polling = Some c'"
      and p: "polls_no_more ''abc123'' c'"
    by auto
  from s have "\<exists>c''. run ?evs c' = Some c''"
    by (auto simp add: handler_defs sample_defs)
  then obtain c'' where r: "run ?evs c' = Some c''" ..
  have "Post_settled (Response True (Some ''abc123'')) \<notin> set ?evs" by simp
  with p r have "\<exists>new. log c'' = log c' @ new \<and> Fetch_get ''abc123'' \<notin> set new"
    unfolding polls_no_more_def by blast
  with s r have later:
    "\<exists>c' c''. step (Get_settled ''abc123'' Network_error) polling = Some c' \<and>
          run ?evs c' = Some c'' \<and>
          (\<exists>new. log c'' = log c' @ new \<and> Fetch_get ''abc123'' \<notin> set new)"
    by blast
  from outcomes later show ?thesis ..
qed

text \<open>
  Claim C1, as the code has it. The polling effect returns no cleanup function, so tearing
  it down cancels nothing. When the component unmounts, every request in flight and every
  timeout stays pending and the log is untouched; a timeout of the chain then still fires
  and issues its status query; a response that arrives is still handled by \<open>checkStatus\<close>,
  with its notification and, for a status that is not terminal, the next timeout; and every
  sequence of chain events performs exactly the requests, timeouts and notifications it
  would have performed had the component stayed mounted. What the unmount changes is that
  React applies no state setter any more: the component state stays as it was. A change of
  \<open>jobId\<close> while the component is mounted likewise keeps every pending timeout and query.
  A chain therefore ends only with a terminal snapshot or a failed query.
\<close>

theorem teardown_cancels_nothing:
  assumes "mounted c"
  shows "\<exists>c1. step Unmount c = Some c1 \<and> pending_view c1 = pending_view c \<and> st c1 = st c \<and>
           (if (j, 2000) \<in> set (timers c)
            then \<exists>c2. step (Timer_fired j) c1 = Some c2 \<and> log c2 = log c @ [Fetch_get j] \<and>
                       gets c2 = gets c @ [j]
            else True) \<and>
           (if j \<in> set (gets c)
            then \<exists>c2. step (Get_settled j r) c1 = Some c2 \<and>
                       log c2 = log c @ snd (checkStatus_settled j r (st c)) \<and>
                       timers c2 = timers c @ timeouts (snd (checkStatus_settled j r (st c))) \<and>
                       st c2 = st c
            else True) \<and>
           (if list_all chain_event evs
            then map_option pending_view (run evs c1) = map_option pending_view (run evs c)
            else True) \<and>
           timers (commit s' c) = timers c \<and> gets (commit s' c) = gets c @ queries (rerun s' c)"
proof -
  let ?c1 = "c\<lparr>mounted := False\<rparr>"
  from assms have u: "step Unmount c = Some ?c1" by (simp add: polling_effect_cleanup_def)
  have p: "pending_view ?c1 = pending_view c" by (simp add: pending_view_def)
  have t: "(j, 2000) \<in> set (timers c) \<Longrightarrow>
      \<exists>c2. step (Timer_fired j) ?c1 = Some c2 \<and> log c2 = log c @ [Fetch_get j] \<and>
           gets c2 = gets c @ [j]"
    by (simp del: step.simps add: step_Timer_fired)
  have g: "\<exists>c2. step (Get_settled j r) ?c1 = Some c2 \<and>
             log c2 = log c @ snd (checkStatus_settled j r (st c)) \<and>
             timers c2 = timers c @ timeouts (snd (checkStatus_settled j r (st c))) \<and>
             st c2 = st c" if "j \<in> set (gets c)"
  proof -
    from that have "j \<in> set (gets ?c1)" by simp
    then obtain c2 where s: "step (Get_settled j r) ?c1 = Some c2" by (rule Get_settled_enabled)
    from view_Get_settled(1,3,6) [OF s] s show ?thesis by simp
  qed
  have r: "list_all chain_event evs \<Longrightarrow>
      map_option pending_view (run evs ?c1) = map_option pending_view (run evs c)"
    using chain_run_view [OF _ p] .
  have k: "timers (commit s' c) = timers c \<and> gets (commit s' c) = gets c @ queries (rerun s' c)"
    by (simp add: commit_fields rerun_def)
  from u p t g r k show ?thesis by simp
qed

theorem teardown_cancels_nothing_witness:
  "(\<exists>c1. step Unmount waiting = Some c1 \<and> pending_view c1 = pending_view waiting \<and>
         st c1 = st waiting \<and>
         (\<exists>c2. step (Timer_fired ''abc123'') c1 = Some c2 \<and>
               log c2 = log waiting @ [Fetch_get ''abc123''] \<and> gets c2 = [''abc123'']) \<and>
         map_option pending_view
           (run [Timer_fired ''abc123'',
                 Get_settled ''abc123'' (Response True (Some sample_completed))] c1) =
         map_option pending_view
           (run [Timer_fired ''abc123'',
                 Get_settled ''abc123'' (Response True (Some sample_completed))] waiting)) \<and>
   (\<exists>c1. step Unmount polling = Some c1 \<and> pending_view c1 = pending_view polling \<and>
         st c1 = st polling \<and>
         (\<exists>c2. step (Get_settled ''abc123'' (Response True (Some sample_processing))) c1 = Some c2 \<and>
               log c2 = log polling @ [Set_timeout ''abc123'' 2000] \<and>
               timers c2 = [(''abc123'', 2000)] \<and> st c2 = st polling))"
proof -
  have m: "mounted waiting" "mounted polling" by (simp_all add: waiting_def polling_def)
  have h: "(''abc123'', 2000) \<in> set (timers waiting)" "''abc123'' \<notin> set (gets waiting)"
    "gets waiting = []"
    by (simp_all add: waiting_def)
  have k: "''abc123'' \<in> set (gets polling)" "timers polling = []"
    "(''abc123'', 2000) \<notin> set (timers polling)"
    "snd (checkStatus_settled ''abc123'' (Response True (Some sample_processing)) (st polling)) =
       [Set_timeout ''abc123'' 2000]"
    by (simp_all add: polling_def effects_checkStatus_settled sample_processing_def)
  from teardown_cancels_nothing [OF m(1), of "''abc123''" Network_error
      "[Timer_fired ''abc123'', Get_settled ''abc123'' (Response True (Some sample_completed))]"
      "st waiting"]
  have timer:
    "\<exists>c1. step Unmount waiting = Some c1 \<and> pending_view c1 = pending_view waiting \<and>
         st c1 = st waiting \<and>
         (\<exists>c2. step (Timer_fired ''abc123'') c1 = Some c2 \<and>
               log c2 = log waiting @ [Fetch_get ''abc123''] \<and> gets c2 = [''abc123'']) \<and>
         map_option pending_view
           (run [Timer_fired ''abc123'',
                 Get_settled ''abc123'' (Response True (Some sample_completed))] c1) =
         map_option pending_view
           (run [Timer_fired ''abc123'',
                 Get_settled ''abc123'' (Response True (Some sample_completed))] waiting)"
    by (simp del: step.simps run.simps add: h chain_event_def) blast
  from teardown_cancels_nothing [OF m(2), of "''abc123''"
      "Response True (Some sample_processing)" "[]" "st polling"]
  have response:
    "\<exists>c1. step Unmount polling = Some c1 \<and> pending_view c1 = pending_view polling \<and>
         st c1 = st polling \<and>
         (\<exists>c2. step (Get_settled ''abc123'' (Response True (Some sample_processing))) c1 = Some c2 \<and>
               log c2 = log polling @ [Set_timeout ''abc123'' 2000] \<and>
               timers c2 = [(''abc123'', 2000)] \<and> st c2 = st polling)"
    by (simp del: step.simps run.simps add: k) blast
  from timer response show ?thesis ..
qed

text \<open>
  Claim C1 as the specification states it fails: after job \<open>abc123\<close> was reported as
  processing, the component unmounts; the timeout still fires and queries the job again,
  and the answer, which arrives after the teardown, is still notified to the user.
\<close>

theorem teardown_counterexample:
  "map_option log
     (run [Set_topic sample_topic, Click_generate,
           Post_settled (Response True (Some ''abc123'')),
           Get_settled ''abc123'' (Response True (Some sample_processing)),
           Unmount] init) =
   Some [Fetch_post sample_topic (Str ''#1E90FF''),
         Toast_success ''Podcast generation started'', Fetch_get ''abc123'',
         Set_timeout ''abc123'' 2000] \<and>
   map_option log
     (run [Set_topic sample_topic, Click_generate,
           Post_settled (Response True (Some ''abc123'')),
           Get_settled ''abc123'' (Response True (Some sample_processing)),
           Unmount, Timer_fired ''abc123'',
           Get_settled ''abc123'' (Response True (Some sample_completed))] init) =
   Some [Fetch_post sample_topic (Str ''#1E90FF''),
         Toast_success ''Podcast generation started'', Fetch_get ''abc123'',
         Set_timeout ''abc123'' 2000, Fetch_get ''abc123'',
         Toast_success ''Podcast generated successfully'']"
  by (simp add: handler_defs sample_defs)

section \<open>Submission\<close>

text \<open>
  Claim C5. For a topic that is not blank the handler issues exactly one request, the
  submission, and when it settles issues none again. The outcome is one of two: the
  response is \<open>ok\<close> and its body parses, and then the job id of the body is stored and the
  start is notified, with no error; or the \<open>fetch\<close> was rejected, the response was not \<open>ok\<close>
  or the body did not parse, and then the error is notified, \<open>generatingPodcast\<close> is
  cleared and no job id is stored.
\<close>

theorem submit_once_either_job_or_error:
  assumes "trim (topic s) \<noteq> []"
  shows "snd (handleGeneratePodcast s) =
           [Fetch_post (topic s) (or_else (get_property colorMap (waveformColor s)) ''#00FF00'')] \<and>
         submissions (snd (handleGeneratePodcast_settled r s')) = 0 \<and>
         (case try_body r of
            Some j \<Rightarrow>
              r = Response True (Some j) \<and>
              handleGeneratePodcast_settled r s' =
                (s'\<lparr>jobId := Some j\<rparr>, [Toast_success ''Podcast generation started''])
          | None \<Rightarrow>
              (r = Network_error \<or> (\<exists>b. r = Response False b) \<or> r = Response True None) \<and>
              handleGeneratePodcast_settled r s' =
                (s'\<lparr>generatingPodcast := False\<rparr>,
                 [Console_error ''Error starting podcast generation:'',
                  Toast_error ''Failed to start podcast generation'']))"
proof -
  from assms have "snd (handleGeneratePodcast s) =
      [Fetch_post (topic s) (or_else (get_property colorMap (waveformColor s)) ''#00FF00'')]"
    by (simp add: handleGeneratePodcast_def)
  moreover have "submissions (snd (handleGeneratePodcast_settled r s')) = 0"
    by (simp add: effects_handleGeneratePodcast_settled split: option.splits)
  moreover have "case try_body r of
            Some j \<Rightarrow>
              r = Response True (Some j) \<and>
              handleGeneratePodcast_settled r s' =
                (s'\<lparr>jobId := Some j\<rparr>, [Toast_success ''Podcast generation started''])
          | None \<Rightarrow>
              (r = Network_error \<or> (\<exists>b. r = Response False b) \<or> r = Response True None) \<and>
              handleGeneratePodcast_settled r s' =
                (s'\<lparr>generatingPodcast := False\<rparr>,
                 [Console_error ''Error starting podcast generation:'',
                  Toast_error ''Failed to start podcast generation''])"
    by (simp add: handleGeneratePodcast_settled_def try_body_None_iff try_body_Some_iff
          split: option.splits)
  ultimately show ?thesis by simp
qed

theorem submit_once_either_job_or_error_witness:
  "snd (handleGeneratePodcast (initial_state\<lparr>topic := sample_topic\<rparr>)) =
     [Fetch_post sample_topic (Str ''#1E90FF'')] \<and>
   handleGeneratePodcast_settled (Response True (Some ''abc123'')) (st submitted) =
     ((st submitted)\<lparr>jobId := Some ''abc123''\<rparr>, [Toast_success ''Podcast generation started'']) \<and>
   handleGeneratePodcast_settled (Response False (Some ''abc123'')) (st submitted) =
     ((st submitted)\<lparr>generatingPodcast := False\<rparr>,
      [Console_error ''Error starting podcast generation:'',
       Toast_error ''Failed to start podcast generation''])"
proof -
  have t: "trim (topic (initial_state\<lparr>topic := sample_topic\<rparr>)) \<noteq> []"
    by (simp add: trim_def sample_topic_def is_white_space_def)
  have c: "or_else (get_property colorMap (waveformColor initial_state)) ''#00FF00'' =
             Str ''#1E90FF''"
    by (simp add: initial_state_def get_property_def colorMap_def)
  from submit_once_either_job_or_error [OF t, of "Response True (Some ''abc123'')" "st submitted"]
    submit_once_either_job_or_error [OF t, of "Response False (Some ''abc123'')" "st submitted"]
  show ?thesis by (simp add: c)
qed

text \<open>
  Claim C10. With a topic that is empty or consists of white space only, the handler
  returns the state it was given and performs one effect, the notification asking for a
  topic: no request is issued.
\<close>

theorem blank_topic_submits_nothing:
  assumes "list_all is_white_space (topic s)"
  shows "handleGeneratePodcast s = (s, [Toast_error ''Please enter a topic''])"
  using trim_blank [OF assms] by (simp add: handleGeneratePodcast_def)

theorem blank_topic_submits_nothing_witness:
  "handleGeneratePodcast (initial_state\<lparr>topic := [0x20, 0x9, 0x3000, 0xA]\<rparr>) =
     (initial_state\<lparr>topic := [0x20, 0x9, 0x3000, 0xA]\<rparr>, [Toast_error ''Please enter a topic''])"
proof -
  have "list_all is_white_space (topic (initial_state\<lparr>topic := [0x20, 0x9, 0x3000, 0xA]\<rparr>))"
    by (simp add: is_white_space_def)
  from blank_topic_submits_nothing [OF this] show ?thesis .
qed

section \<open>What a snapshot and a failure leave in the state\<close>

text \<open>
  Claim C6. A snapshot that arrives sets the progress of the component to one hundred
  times the progress of the snapshot, whatever that value is and whatever the progress
  was before: the value is neither clamped nor compared with the previous one.
\<close>

theorem progress_applied_as_received:
  "progress_state (fst (checkStatus_settled j (Response True (Some d)) s)) = progress d * 100"
  by (simp add: status_fields_checkStatus_settled)

text \<open>Progress beyond 100 and progress that falls, on the sample chain.\<close>

lemma progress_not_clamped_nor_monotone:
  "progress_state (st waiting) = 40"
  "map_option (progress_state \<circ> st)
     (run [Timer_fired ''abc123'',
           Get_settled ''abc123'' (Response True (Some (sample_processing\<lparr>progress := 0.1\<rparr>))),
           Timer_fired ''abc123'',
           Get_settled ''abc123'' (Response True (Some (sample_processing\<lparr>progress := 1.5\<rparr>)))]
        waiting) = Some 150"
  "map_option (progress_state \<circ> st)
     (run [Timer_fired ''abc123'',
           Get_settled ''abc123'' (Response True (Some (sample_processing\<lparr>progress := 0.1\<rparr>)))]
        waiting) = Some 10"
  by (simp_all add: handler_defs sample_defs)




section \<open>Colours\<close>

text \<open>
  For the six preset names both look-ups give the colour of the name, and a name that is
  neither a preset nor a member of \<open>Object.prototype\<close> gets the fallback: the class of blue
  in the visualizer, the hexadecimal value of green in the page. A name that
  \<open>Object.prototype\<close> defines is found on the prototype and returned instead.
\<close>

lemma getColorClass_presets:
  "getColorClass ''blue'' = Str ''bg-waveform-blue''"
  "getColorClass ''purple'' = Str ''bg-waveform-purple''"
  "getColorClass ''pink'' = Str ''bg-waveform-pink''"
  "getColorClass ''orange'' = Str ''bg-waveform-orange''"
  "getColorClass ''green'' = Str ''bg-waveform-green''"
  "getColorClass ''red'' = Str ''bg-waveform-red''"
  by (simp_all add: getColorClass_def getColorClass_colorMap_def get_property_def)

lemma colorMap_presets:
  "or_else (get_property colorMap ''blue'') ''#00FF00'' = Str ''#1E90FF''"
  "or_else (get_property colorMap ''purple'') ''#00FF00'' = Str ''#8A2BE2''"
  "or_else (get_property colorMap ''pink'') ''#00FF00'' = Str ''#FF69B4''"
  "or_else (get_property colorMap ''orange'') ''#00FF00'' = Str ''#FFA500''"
  "or_else (get_property colorMap ''green'') ''#00FF00'' = Str ''#00FF00''"
  "or_else (get_property colorMap ''red'') ''#00FF00'' = Str ''#FF0000''"
  by (simp_all add: colorMap_def get_property_def)

lemma unknown_name_defaults:
  assumes "n \<notin> set presets" and "n \<notin> set object_prototype_keys"
  shows "getColorClass n = Str ''bg-waveform-blue''"
    and "or_else (get_property colorMap n) ''#00FF00'' = Str ''#00FF00''"
  using assms
  by (simp_all add: getColorClass_def getColorClass_colorMap_def colorMap_def get_property_def
        presets_def)

lemma inherited_name_returned:
  assumes "n \<in> set object_prototype_keys"
  shows "getColorClass n = Inherited n"
    and "or_else (get_property colorMap n) ''#00FF00'' = Inherited n"
  using assms
  by (auto simp add: getColorClass_def getColorClass_colorMap_def colorMap_def get_property_def
        object_prototype_keys_def)

text \<open>
  Claim C7 does not hold of the code at the name \<open>constructor\<close>, which is not a preset: both
  look-ups return the inherited member, not the fallback colour.
\<close>

theorem inherited_name_is_not_defaulted:
  "getColorClass ''constructor'' = Inherited ''constructor'' \<and>
   or_else (get_property colorMap ''constructor'') ''#00FF00'' = Inherited ''constructor''"
  by (simp add: getColorClass_def getColorClass_colorMap_def colorMap_def get_property_def
        object_prototype_keys_def)

section \<open>The animation\<close>

text \<open>
  Claim C8. There are 64 bars throughout, and after any sequence of prop changes and ticks
  the component plays exactly when the \<open>playing\<close> prop passed last is true. While that prop
  is true an interval of period 100 (milliseconds) is set, and a tick of it writes to every
  one of the 64 bars the number drawn for that bar, times 100, as its height in percent: a
  fraction of the full height between 0 and 1 for draws in the range of \<open>Math.random\<close>. The
  interval stays set. While the prop is false no interval is set and no tick can fire.
\<close>

theorem tick_follows_playing_prop:
  assumes "vis_run es (mount_visualizer p) = Some v"
    and "\<forall>i<barCount. 0 \<le> rnd i \<and> rnd i < 1"
  shows "barCount = 64 \<and> length (bars v) = barCount \<and> playing v = playing_prop p es \<and>
         (if playing_prop p es
          then intervalId v = Some \<lparr>period = 100, closure_playing = True\<rparr> \<and>
               (\<exists>v'. tick rnd v = Some v' \<and>
                     bars v' = map (\<lambda>i. Some (rnd i * 100)) [0..<barCount] \<and>
                     list_all (\<lambda>b. 0 \<le> bar_height b / 100 \<and> bar_height b / 100 \<le> 1) (bars v') \<and>
                     intervalId v' = intervalId v \<and> playing v')
          else intervalId v = None \<and> tick rnd v = None)"
proof -
  from playing_run [OF assms(1)] have q: "playing v = playing_prop p es"
    by (simp add: playing_mount)
  from vis_inv_reachable [OF assms(1)] have l: "length (bars v) = barCount"
    and i: "intervalId v = (if playing v then Some \<lparr>period = 100, closure_playing = True\<rparr> else None)"
    by (simp_all add: vis_inv_def)
  show ?thesis
  proof (cases "playing v")
    case True
    let ?v' = "v\<lparr>bars := map (\<lambda>i. Some (rnd i * 100)) [0..<barCount]\<rparr>"
    from True i l have t: "tick rnd v = Some ?v'"
      by (simp add: tick_def updateBars_def)
    from assms(2) have "list_all (\<lambda>b. 0 \<le> bar_height b / 100 \<and> bar_height b / 100 \<le> 1) (bars ?v')"
      by (auto simp add: list_all_iff bar_height_def intro: less_imp_le)
    with t True i l q show ?thesis by (simp add: barCount_def)
  next
    case False
    with i l q show ?thesis by (simp add: tick_def barCount_def)
  qed
qed

theorem tick_follows_playing_prop_witness:
  "(\<exists>v. vis_run [Set_playing True] (mount_visualizer False) = Some v \<and> playing v \<and>
        intervalId v = Some \<lparr>period = 100, closure_playing = True\<rparr> \<and>
        (\<exists>v'. tick (\<lambda>i. 1 / 2) v = Some v' \<and>
              bars v' = map (\<lambda>i. Some (1 / 2 * 100)) [0..<barCount] \<and>
              list_all (\<lambda>b. 0 \<le> bar_height b / 100 \<and> bar_height b / 100 \<le> 1) (bars v') \<and>
              intervalId v' = intervalId v \<and> playing v')) \<and>
   (\<exists>v. vis_run [Set_playing True, Tick (\<lambda>i. 1 / 2), Set_playing False] (mount_visualizer False)
          = Some v \<and>
        \<not> playing v \<and> intervalId v = None \<and> tick (\<lambda>i. 1 / 2) v = None) \<and>
   tick (\<lambda>i. 1 / 2) (mount_visualizer False) = None"
proof -
  have h: "\<forall>i<barCount. (0::real) \<le> 1 / 2 \<and> (1::real) / 2 < 1" by simp
  obtain v1 where r1: "vis_run [Set_playing True] (mount_visualizer False) = Some v1" by simp
  obtain v2 where r2: "vis_run [Set_playing True, Tick (\<lambda>i. 1 / 2), Set_playing False]
      (mount_visualizer False) = Some v2"
    by (simp add: mount_visualizer_def animation_effect_def animation_cleanup_def setPlaying_def
          tick_def)
  have r3: "vis_run [] (mount_visualizer False) = Some (mount_visualizer False)" by simp
  from tick_follows_playing_prop [OF r1 h] r1
  have a: "\<exists>v. vis_run [Set_playing True] (mount_visualizer False) = Some v \<and> playing v \<and>
        intervalId v = Some \<lparr>period = 100, closure_playing = True\<rparr> \<and>
        (\<exists>v'. tick (\<lambda>i. 1 / 2) v = Some v' \<and>
              bars v' = map (\<lambda>i. Some (1 / 2 * 100)) [0..<barCount] \<and>
              list_all (\<lambda>b. 0 \<le> bar_height b / 100 \<and> bar_height b / 100 \<le> 1) (bars v') \<and>
              intervalId v' = intervalId v \<and> playing v')"
    by (auto simp del: vis_run.simps)
  from tick_follows_playing_prop [OF r2 h] r2
  have b: "\<exists>v. vis_run [Set_playing True, Tick (\<lambda>i. 1 / 2), Set_playing False]
          (mount_visualizer False) = Some v \<and>
        \<not> playing v \<and> intervalId v = None \<and> tick (\<lambda>i. 1 / 2) v = None"
    by (auto simp del: vis_run.simps)
  from tick_follows_playing_prop [OF r3 h]
  have c: "tick (\<lambda>i. 1 / 2) (mount_visualizer False) = None" by simp
  from a b c show ?thesis by (intro conjI)
qed

text \<open>
  Claim C2 does not hold of the code. When \<open>playing\<close> turns false the interval is cleared, so
  the ticks stop, but no bar is written: the assignment of 20\<open>%\<close> stands in \<open>updateBars\<close>,
  which only the interval calls, and every interval was set by a closure that saw
  \<open>playing = true\<close>. After one tick with every draw 0.5 and the change of \<open>playing\<close> to false,
  each of the 64 bars is still 50\<open>%\<close> high, and no further tick fires.
\<close>

theorem pause_leaves_bar_heights:
  "map_option (\<lambda>v. (playing v, intervalId v, map bar_height (bars v)))
     (vis_run [Tick (\<lambda>i. 1 / 2), Set_playing False] (mount_visualizer True)) =
   Some (False, None, replicate 64 50) \<and>
   vis_run [Tick (\<lambda>i. 1 / 2), Set_playing False, Tick (\<lambda>i. 1 / 2)] (mount_visualizer True) = None"
  by (simp add: mount_visualizer_def animation_effect_def animation_cleanup_def setPlaying_def
        tick_def updateBars_def barCount_def bar_height_def comp_def map_replicate_const)

end
